theory Spec2Isabelle
  imports Complex_Main
begin

section \<open>The FormattedInput component of Currency-Formatted-Input.tsx\<close>

text \<open>
  The component keeps two pieces of local state (the text shown in the input box and a
  focus flag), reads the numeric value and the configuration from its props, and reports
  edits through the callback \<open>setValue\<close>. Each handler of the source is a function from
  the state before the event to the state after it; a call of \<open>setValue\<close> is the optional
  number a change event returns.

  Numbers: a JavaScript number is \<open>NaN\<close>, one of the two infinities or a finite double,
  which is a rational number (\<open>jsnum\<close> below). \<open>parseFloat\<close> rounds the decimal it reads
  to the nearest double and overflows to \<open>Infinity\<close>. Negative zero is not told apart
  from zero: \<open>===\<close> and the comparisons do not tell them apart either, and
  \<open>parseFloat\<close> never returns it on the text the component passes. The bounds and the
  numbers passed to \<open>setValue\<close> range over all of \<open>jsnum\<close>; the prop \<open>value\<close>, which the
  focus handlers and the effect only compare with \<open>0\<close> and hand to the formatter, is a
  finite number.

  Strings are lists of characters. The component looks at a character only to ask whether
  it is a digit, the point or a word character, so a character outside this alphabet
  stands for any other one.

  React runs the effect after a render in which \<open>value\<close>, \<open>showCents\<close> or the focus flag
  has changed. The scheduling belongs to the framework; here the effect is one more
  function on the state, next to the three event handlers.
\<close>

subsection \<open>Numbers\<close>

datatype jsnum = NaN | NegInfinity | Finite rat | Infinity

definition isNaN :: "jsnum \<Rightarrow> bool" where
  "isNaN x \<longleftrightarrow> x = NaN"

text \<open>
  \<open>Math.max\<close> and \<open>Math.min\<close> of two numbers: \<open>NaN\<close> if either is \<open>NaN\<close>, otherwise the
  larger (smaller) one in the order \<open>-Infinity < finite < Infinity\<close>.
\<close>

fun Math_max :: "jsnum \<Rightarrow> jsnum \<Rightarrow> jsnum" where
  "Math_max NaN y = NaN"
| "Math_max x NaN = NaN"
| "Math_max Infinity y = Infinity"
| "Math_max x Infinity = Infinity"
| "Math_max NegInfinity y = y"
| "Math_max x NegInfinity = x"
| "Math_max (Finite a) (Finite b) = Finite (max a b)"

fun Math_min :: "jsnum \<Rightarrow> jsnum \<Rightarrow> jsnum" where
  "Math_min NaN y = NaN"
| "Math_min x NaN = NaN"
| "Math_min NegInfinity y = NegInfinity"
| "Math_min x NegInfinity = NegInfinity"
| "Math_min Infinity y = y"
| "Math_min x Infinity = x"
| "Math_min (Finite a) (Finite b) = Finite (min a b)"

text \<open>\<open>Math.floor\<close> leaves \<open>NaN\<close> and the infinities as they are.\<close>

fun Math_floor :: "jsnum \<Rightarrow> jsnum" where
  "Math_floor (Finite a) = Finite (of_int \<lfloor>a\<rfloor>)"
| "Math_floor x = x"

subsection \<open>Props and state\<close>

text \<open>The bounds have the type \<open>number\<close>: the caller may pass an infinity or \<open>NaN\<close>.\<close>

record config =
  minValue :: jsnum
  maxValue :: jsnum
  currency :: string
  showCents :: bool
  showCurrencySymbol :: bool

text \<open>The defaults of the destructured props; \<open>Number.MAX_SAFE_INTEGER\<close> is \<open>2^53 - 1\<close>.\<close>

definition MAX_SAFE_INTEGER :: rat where
  "MAX_SAFE_INTEGER = 9007199254740991"

definition default_config :: config where
  "default_config =
     \<lparr>minValue = Finite 0, maxValue = Finite MAX_SAFE_INTEGER, currency = ''USD'',
      showCents = False, showCurrencySymbol = True\<rparr>"

record state =
  displayValue :: string
  isFocused :: bool

text \<open>The two \<open>useState\<close> initial values.\<close>

definition initial_state :: state where
  "initial_state = \<lparr>displayValue = [], isFocused = False\<rparr>"

subsection \<open>Characters, and the string primitives the component uses\<close>

text \<open>The regular expression class \<open>\d\<close> (without the unicode flag): the ten ASCII digits.\<close>

definition is_digit :: "char \<Rightarrow> bool" where
  "is_digit c \<longleftrightarrow> c \<in> set ''0123456789''"

text \<open>The class \<open>\w\<close>, which decides the word boundaries \<open>\b\<close> and \<open>\B\<close>.\<close>

definition is_word :: "char \<Rightarrow> bool" where
  "is_word c \<longleftrightarrow>
     c \<in> set ''abcdefghijklmnopqrstuvwxyzABCDEFGHIJKLMNOPQRSTUVWXYZ0123456789_''"

text \<open>\<open>s.replace(/[^\d.]/g, "")\<close>: every character that is neither a digit nor a point goes.\<close>

definition strip_non_numeric :: "string \<Rightarrow> string" where
  "strip_non_numeric s = filter (\<lambda>c. is_digit c \<or> c = CHR ''.'') s"

text \<open>
  \<open>s.split(".")\<close>: the segments between the points; the empty string gives one empty
  segment, so the result is never the empty array.
\<close>

fun split_dot :: "string \<Rightarrow> string list" where
  "split_dot [] = [[]]"
| "split_dot (c # cs) =
     (if c = CHR ''.'' then [] # split_dot cs
      else (case split_dot cs of
              p # ps \<Rightarrow> (c # p) # ps
            | [] \<Rightarrow> [[c]]))"

text \<open>\<open>parts.join(".")\<close>.\<close>

fun join_dot :: "string list \<Rightarrow> string" where
  "join_dot [] = []"
| "join_dot [p] = p"
| "join_dot (p # q # ps) = p @ CHR ''.'' # join_dot (q # ps)"

subsection \<open>addCommas\<close>

text \<open>
  The lookahead \<open>(?=(\d{3})+(?!\d))\<close> at the head of a string: one group of three digits,
  and then either no digit follows or the rest again starts with such groups.
\<close>

fun three_digit_groups :: "string \<Rightarrow> bool" where
  "three_digit_groups (a # b # c # rest) =
     (is_digit a \<and> is_digit b \<and> is_digit c \<and>
      ((case rest of [] \<Rightarrow> True | d # _ \<Rightarrow> \<not> is_digit d) \<or> three_digit_groups rest))"
| "three_digit_groups _ = False"

text \<open>
  \<open>\B\<close> between the character before a position (none at the start) and the character
  after it: both are word characters or neither is.
\<close>

definition not_word_boundary :: "char option \<Rightarrow> char option \<Rightarrow> bool" where
  "not_word_boundary prev nxt \<longleftrightarrow>
     (case prev of None \<Rightarrow> False | Some b \<Rightarrow> is_word b) =
     (case nxt of None \<Rightarrow> False | Some a \<Rightarrow> is_word a)"

text \<open>
  \<open>s.replace(/\B(?=(\d{3})+(?!\d))/g, ",")\<close>: the pattern matches the empty string, so a
  comma is inserted at every position of \<open>s\<close> where it matches. The first argument is the
  character before the position. At the end of the string the lookahead fails.
\<close>

fun replace_with_commas :: "char option \<Rightarrow> string \<Rightarrow> string" where
  "replace_with_commas prev [] = []"
| "replace_with_commas prev (c # cs) =
     (if not_word_boundary prev (Some c) \<and> three_digit_groups (c # cs)
      then CHR '','' # c # replace_with_commas (Some c) cs
      else c # replace_with_commas (Some c) cs)"

definition addCommas :: "string \<Rightarrow> string" where
  "addCommas num =
     (let parts = split_dot num;
          parts = parts[0 := replace_with_commas None (parts ! 0)]
      in join_dot parts)"

subsection \<open>formatForDisplay\<close>

definition formatForDisplay :: "config \<Rightarrow> string \<Rightarrow> string" where
  "formatForDisplay cfg v =
     (let cleanValue = strip_non_numeric v in
      if cleanValue = [] then []
      else
        let formattedValue =
              (if showCents cfg
               then (let parts = split_dot cleanValue
                     in parts ! 0 @ (if length parts > 1 then CHR ''.'' # take 2 (parts ! 1) else []))
               else split_dot cleanValue ! 0)
        in if \<not> showCurrencySymbol cfg then addCommas formattedValue
           else CHR ''$'' # addCommas formattedValue)"

text \<open>The prefix \<open>formatForDisplay\<close> puts before a non-empty result.\<close>

definition currency_prefix :: "config \<Rightarrow> string" where
  "currency_prefix cfg = (if showCurrencySymbol cfg then ''$'' else [])"

subsection \<open>parseFloat on sanitized text\<close>

definition digit_value :: "char \<Rightarrow> nat" where
  "digit_value c = of_char c - 48"

definition digits_value :: "string \<Rightarrow> nat" where
  "digits_value ds = foldl (\<lambda>a c. 10 * a + digit_value c) 0 ds"

text \<open>
  The double nearest to the non-negative fraction \<open>n / d\<close> (\<open>d > 0\<close>), ties to the even
  significand, as IEEE 754 rounds. With \<open>e\<close> the binary exponent of the fraction
  (\<open>2^e \<le> n / d < 2^(e+1)\<close>), the doubles around it are the multiples of \<open>2^(e - 52)\<close>, and
  of \<open>2^(-1074)\<close> in the subnormal range. A fraction of \<open>2^1024\<close> or more, or one that
  rounds up to \<open>2^1024\<close>, gives \<open>Infinity\<close>.
\<close>

fun bit_length :: "nat \<Rightarrow> nat" where
  "bit_length n = (if n = 0 then 0 else Suc (bit_length (n div 2)))"

definition binary_exponent :: "nat \<Rightarrow> nat \<Rightarrow> int" where
  "binary_exponent n d =
     (let e = int (bit_length n) - int (bit_length d)
      in if (if 0 \<le> e then d * 2 ^ nat e \<le> n else d \<le> n * 2 ^ nat (- e)) then e else e - 1)"

definition round_half_even :: "nat \<Rightarrow> nat \<Rightarrow> nat" where
  "round_half_even a b =
     (let f = a div b; r = a mod b
      in if 2 * r < b then f
         else if b < 2 * r then f + 1
         else if even f then f else f + 1)"

definition pow2 :: "int \<Rightarrow> rat" where
  "pow2 k = (if 0 \<le> k then 2 ^ nat k else 1 / 2 ^ nat (- k))"

definition nearest_double :: "nat \<Rightarrow> nat \<Rightarrow> jsnum" where
  "nearest_double n d =
     (if n = 0 then Finite 0
      else
        let e = binary_exponent n d
        in if 1024 \<le> e then Infinity
           else
             let u = max e (- 1022) - 52;
                 m = (if 0 \<le> u then round_half_even n (d * 2 ^ nat u)
                      else round_half_even (n * 2 ^ nat (- u)) d)
             in if e = 1023 \<and> m = 2 ^ 53 then Infinity
                else Finite (of_nat m * pow2 u))"

text \<open>
  \<open>parseFloat\<close> reads the longest prefix that is a decimal literal and gives \<open>NaN\<close> when
  there is none. The component only passes it strings of digits and points, where the
  literal is \<open>digits\<close>, \<open>digits.\<close>, \<open>digits.digits\<close> or \<open>.digits\<close>; signs, exponents,
  white space and the word \<open>Infinity\<close> cannot occur there and are not modelled.

  The literal read is kept as the pair \<open>(m, k)\<close> of all its digits as one number and the
  count of its fractional digits: it denotes \<open>m / 10^k\<close>.
\<close>

definition decimal_literal :: "string \<Rightarrow> (nat \<times> nat) option" where
  "decimal_literal s =
     (let ip = takeWhile is_digit s;
          rest = dropWhile is_digit s;
          fp = (case rest of
                  [] \<Rightarrow> []
                | c # r \<Rightarrow> if c = CHR ''.'' then takeWhile is_digit r else [])
      in if ip = [] \<and> fp = [] then None
         else Some (digits_value (ip @ fp), length fp))"

definition double_of_decimal :: "nat \<times> nat \<Rightarrow> jsnum" where
  "double_of_decimal l = nearest_double (fst l) (10 ^ snd l)"

definition parseFloat :: "string \<Rightarrow> jsnum" where
  "parseFloat s = (case decimal_literal s of None \<Rightarrow> NaN | Some l \<Rightarrow> double_of_decimal l)"

subsection \<open>handleChange\<close>

text \<open>The canonical numeric string \<open>cleanValue\<close> that \<open>handleChange\<close> computes from the raw text.\<close>

definition cleanValue_of :: "config \<Rightarrow> string \<Rightarrow> string" where
  "cleanValue_of cfg inputValue =
     (let numericValue = strip_non_numeric inputValue in
      if showCents cfg
      then (let parts = split_dot numericValue
            in parts ! 0 @ (if length parts > 1 then CHR ''.'' # parts ! 1 else []))
      else split_dot numericValue ! 0)"

text \<open>
  What \<open>handleChange\<close> passes to \<open>setValue\<close>: \<open>None\<close> when \<open>setValue\<close> is not called.
\<close>

definition reported_value :: "config \<Rightarrow> string \<Rightarrow> jsnum option" where
  "reported_value cfg cleanValue =
     (if cleanValue = [] then Some (Finite 0)
      else
        let parsedValue = parseFloat cleanValue
        in if \<not> isNaN parsedValue
           then
             let clampedValue = Math_min (maxValue cfg) (Math_max (minValue cfg) parsedValue)
             in Some (if showCents cfg then clampedValue else Math_floor clampedValue)
           else None)"

text \<open>The change event: the state after it, and the argument of \<open>setValue\<close> if it was called.\<close>

definition handleChange :: "config \<Rightarrow> string \<Rightarrow> state \<Rightarrow> state \<times> jsnum option" where
  "handleChange cfg inputValue st =
     (let cleanValue = cleanValue_of cfg inputValue
      in (st\<lparr>displayValue := formatForDisplay cfg cleanValue\<rparr>,
          reported_value cfg cleanValue))"

subsection \<open>The locale-aware formatter\<close>

text \<open>
  \<open>Intl.NumberFormat\<close> belongs to the runtime, not to the component. The handlers take
  the function \<open>format\<close> of the formatter as a parameter and build its options as the
  source does, three times in the same way.
\<close>

datatype number_style = Currency | Decimal

record number_format_options =
  style :: number_style
  currency_code :: string
  minimumFractionDigits :: nat
  maximumFractionDigits :: nat

type_synonym number_format = "number_format_options \<Rightarrow> rat \<Rightarrow> string"

definition formatter_options :: "config \<Rightarrow> number_format_options" where
  "formatter_options cfg =
     \<lparr>style = (if showCurrencySymbol cfg then Currency else Decimal),
      currency_code = currency cfg,
      minimumFractionDigits = (if showCents cfg then 2 else 0),
      maximumFractionDigits = (if showCents cfg then 2 else 0)\<rparr>"

subsection \<open>The effect, handleFocus and handleBlur\<close>

text \<open>
  The body of the \<open>useEffect\<close> callback. The prop \<open>value\<close> has type \<open>number\<close>, so the test
  \<open>value !== undefined\<close> of the second branch is true. The effect and the two focus
  handlers only compare \<open>value\<close> with \<open>0\<close> and hand it to the formatter; it is a finite
  number here.
\<close>

definition sync_effect :: "number_format \<Rightarrow> config \<Rightarrow> rat \<Rightarrow> state \<Rightarrow> state" where
  "sync_effect fmt cfg v st =
     (if \<not> isFocused st \<and> v = 0 \<and> displayValue st = [] then st\<lparr>displayValue := []\<rparr>
      else st\<lparr>displayValue :=
                 (if v = 0 \<and> displayValue st = [] then []
                  else fmt (formatter_options cfg) v)\<rparr>)"

text \<open>
  The focus and blur handlers, without the caller's own \<open>onFocus\<close>/\<open>onBlur\<close> and without
  the deferred cursor move, which do not touch the component's state.
\<close>

definition handleFocus :: "number_format \<Rightarrow> config \<Rightarrow> rat \<Rightarrow> state \<Rightarrow> state" where
  "handleFocus fmt cfg v st =
     (let st = st\<lparr>isFocused := True\<rparr>
      in if v = 0 then st\<lparr>displayValue := ''$''\<rparr>
         else st\<lparr>displayValue := fmt (formatter_options cfg) v\<rparr>)"

definition handleBlur :: "number_format \<Rightarrow> config \<Rightarrow> rat \<Rightarrow> state \<Rightarrow> state" where
  "handleBlur fmt cfg v st =
     (let st' = st\<lparr>isFocused := False\<rparr>
      in if v = 0 \<and> displayValue st = ''$'' then st'\<lparr>displayValue := []\<rparr>
         else if v \<noteq> 0 then st'\<lparr>displayValue := fmt (formatter_options cfg) v\<rparr>
         else st')"

subsection \<open>Grouping from the right, canonical strings, truncation\<close>

text \<open>
  A comma every three digits counted from the right, written as the words say it: on the
  reversed digits a comma follows each full group of three that has a digit after it.
\<close>

fun comma_after_three :: "string \<Rightarrow> string" where
  "comma_after_three (a # b # c # d # rest) = a # b # c # CHR '','' # comma_after_three (d # rest)"
| "comma_after_three ds = ds"

definition group_from_right :: "string \<Rightarrow> string" where
  "group_from_right ds = rev (comma_after_three (rev ds))"

text \<open>A canonical numeric string: digits and at most one decimal point.\<close>

definition canonical :: "string \<Rightarrow> bool" where
  "canonical s \<longleftrightarrow>
     list_all (\<lambda>c. is_digit c \<or> c = CHR ''.'') s \<and> length (filter (\<lambda>c. c = CHR ''.'') s) \<le> 1"

text \<open>The integer portion of a numeric string, and what follows it (the point and the rest).\<close>

definition integer_portion :: "string \<Rightarrow> string" where
  "integer_portion s = takeWhile (\<lambda>c. c \<noteq> CHR ''.'') s"

definition fractional_portion :: "string \<Rightarrow> string" where
  "fractional_portion s = dropWhile (\<lambda>c. c \<noteq> CHR ''.'') s"

text \<open>The digits between the first point and the second, if there is a first point.\<close>

definition first_fraction :: "string \<Rightarrow> string" where
  "first_fraction s = integer_portion (tl (fractional_portion s))"

text \<open>The configured fractional precision, and a non-negative number cut to that many digits.\<close>

definition fraction_digits :: "config \<Rightarrow> nat" where
  "fraction_digits cfg = (if showCents cfg then 2 else 0)"

definition truncate_to :: "nat \<Rightarrow> rat \<Rightarrow> rat" where
  "truncate_to d x = of_int \<lfloor>x * 10 ^ d\<rfloor> / 10 ^ d"

text \<open>
  The decimal \<open>m / 10^k\<close> as a rational number, and the same decimal with the digits after
  its \<open>d\<close>-th fractional digit dropped.
\<close>

definition decimal_value :: "nat \<times> nat \<Rightarrow> rat" where
  "decimal_value l = of_nat (fst l) / 10 ^ snd l"

definition cut_fraction :: "nat \<Rightarrow> nat \<times> nat \<Rightarrow> nat \<times> nat" where
  "cut_fraction d l = (fst l div 10 ^ (snd l - d), min (snd l) d)"

subsection \<open>A concrete formatter\<close>

definition digit_char :: "nat \<Rightarrow> char" where
  "digit_char n = ''0123456789'' ! n"

fun decimal_digits :: "nat \<Rightarrow> string" where
  "decimal_digits n =
     (if n < 10 then [digit_char n] else decimal_digits (n div 10) @ [digit_char (n mod 10)])"

text \<open>
  What \<open>new Intl.NumberFormat("en-US", options).format\<close> prints for the currency \<open>USD\<close>
  when the minimum and the maximum number of fraction digits agree, as the component sets
  them: a minus sign for a negative number, the dollar sign in the currency style, the
  integer digits in groups of three, and the fraction digits after rounding half away from
  zero. It serves to run the handlers on concrete inputs.
\<close>

definition en_US_format :: number_format where
  "en_US_format opts v =
     (let d = maximumFractionDigits opts;
          scaled = nat \<lfloor>\<bar>v\<bar> * 10 ^ d + 1 / 2\<rfloor>;
          fdigits = decimal_digits (scaled mod 10 ^ d)
      in (if v < 0 then ''-'' else []) @
         (if style opts = Currency then ''$'' else []) @
         group_from_right (decimal_digits (scaled div 10 ^ d)) @
         (if d = 0 then [] else CHR ''.'' # replicate (d - length fdigits) (CHR ''0'') @ fdigits))"

section \<open>Evaluation at concrete inputs\<close>

declare decimal_digits.simps [simp del]

declare bit_length.simps [simp del]

lemma floor_one_half: "\<lfloor>1 / 2 :: rat\<rfloor> = 0"
  by (simp add: floor_eq_iff)

lemmas string_eval =
  strip_non_numeric_def is_digit_def is_word_def not_word_boundary_def addCommas_def
  formatForDisplay_def cleanValue_of_def

lemmas double_eval =
  nearest_double_def binary_exponent_def bit_length.simps round_half_even_def pow2_def
  double_of_decimal_def

lemmas number_eval =
  floor_one_half parseFloat_def decimal_literal_def digits_value_def digit_value_def isNaN_def
  reported_value_def handleChange_def double_eval

lemmas config_eval = default_config_def initial_state_def MAX_SAFE_INTEGER_def

lemmas format_eval =
  en_US_format_def formatter_options_def group_from_right_def digit_char_def
  decimal_digits.simps floor_one_half

section \<open>Splitting at the decimal point\<close>

lemma split_dot_unfold:
  "split_dot s = integer_portion s #
     (case fractional_portion s of [] \<Rightarrow> [] | _ # r \<Rightarrow> split_dot r)"
  by (induction s) (simp_all add: integer_portion_def fractional_portion_def)

lemma split_dot_nth0: "split_dot s ! 0 = integer_portion s"
  by (subst split_dot_unfold) simp

lemma fractional_portion_Nil: "fractional_portion s = [] \<longleftrightarrow> CHR ''.'' \<notin> set s"
  by (induction s) (simp_all add: fractional_portion_def)

lemma split_dot_length: "Suc 0 < length (split_dot s) \<longleftrightarrow> CHR ''.'' \<in> set s"
proof -
  have "length (split_dot r) > 0" for r
    by (subst split_dot_unfold) simp
  then show ?thesis
    using fractional_portion_Nil[of s]
    by (subst split_dot_unfold) (auto split: list.splits)
qed

lemma split_dot_nth1:
  assumes "CHR ''.'' \<in> set s"
  shows "split_dot s ! Suc 0 = first_fraction s"
proof -
  from assms obtain c r where cr: "fractional_portion s = c # r"
    using fractional_portion_Nil[of s] by (cases "fractional_portion s") auto
  have "split_dot s ! Suc 0 = split_dot r ! 0"
    by (subst split_dot_unfold) (simp add: cr)
  then show ?thesis
    by (simp add: split_dot_nth0 first_fraction_def cr)
qed

lemma integer_portion_no_dot: "CHR ''.'' \<notin> set (integer_portion s)"
  unfolding integer_portion_def by (induction s) auto

lemma first_fraction_no_dot: "CHR ''.'' \<notin> set (first_fraction s)"
  by (simp add: first_fraction_def integer_portion_no_dot)

lemma integer_portion_id: "CHR ''.'' \<notin> set p \<Longrightarrow> integer_portion p = p"
  unfolding integer_portion_def by (induction p) auto

lemma integer_portion_append_dot:
  "CHR ''.'' \<notin> set p \<Longrightarrow> integer_portion (p @ CHR ''.'' # q) = p"
  unfolding integer_portion_def by (induction p) auto

lemma fractional_portion_append_dot:
  "CHR ''.'' \<notin> set p \<Longrightarrow> fractional_portion (p @ CHR ''.'' # q) = CHR ''.'' # q"
  unfolding fractional_portion_def by (induction p) auto


lemma split_dot_no_dot: "CHR ''.'' \<notin> set p \<Longrightarrow> split_dot p = [p]"
  using fractional_portion_Nil[of p]
  by (subst split_dot_unfold) (simp add: integer_portion_id)

lemma split_dot_one_dot:
  "CHR ''.'' \<notin> set p \<Longrightarrow> CHR ''.'' \<notin> set q \<Longrightarrow> split_dot (p @ CHR ''.'' # q) = [p, q]"
  by (subst split_dot_unfold)
    (simp add: integer_portion_append_dot fractional_portion_append_dot split_dot_no_dot)

lemma addCommas_no_dot:
  "CHR ''.'' \<notin> set p \<Longrightarrow> addCommas p = replace_with_commas None p"
  by (simp add: addCommas_def split_dot_no_dot)

lemma addCommas_one_dot:
  "CHR ''.'' \<notin> set p \<Longrightarrow> CHR ''.'' \<notin> set q \<Longrightarrow>
   addCommas (p @ CHR ''.'' # q) = replace_with_commas None p @ CHR ''.'' # q"
  by (simp add: addCommas_def split_dot_one_dot)

text \<open>The sanitized string and the formatted value in closed form.\<close>

lemma cleanValue_of_eq:
  "cleanValue_of cfg raw =
     (let n = strip_non_numeric raw in
      integer_portion n @
      (if showCents cfg \<and> CHR ''.'' \<in> set n then CHR ''.'' # first_fraction n else []))"
  by (simp add: cleanValue_of_def Let_def split_dot_nth0 split_dot_length split_dot_nth1)

lemma formatForDisplay_eq:
  "formatForDisplay cfg v =
     (let n = strip_non_numeric v in
      if n = [] then []
      else currency_prefix cfg @ replace_with_commas None (integer_portion n) @
           (if showCents cfg \<and> CHR ''.'' \<in> set n then CHR ''.'' # take 2 (first_fraction n) else []))"
proof -
  have nd: "CHR ''.'' \<notin> set (take 2 (first_fraction n))" for n
    using first_fraction_no_dot[of n] by (auto dest: in_set_takeD)
  show ?thesis
    by (simp add: formatForDisplay_def Let_def split_dot_nth0 split_dot_length split_dot_nth1
        addCommas_no_dot addCommas_one_dot integer_portion_no_dot nd currency_prefix_def)
qed

section \<open>The comma regular expression on digit strings\<close>

lemma is_digit_is_word: "is_digit c \<Longrightarrow> is_word c"
  by (auto simp: is_digit_def is_word_def)

lemma dot_not_digit: "\<not> is_digit (CHR ''.'')"
  by (simp add: is_digit_def)

lemma comma_not_digit: "\<not> is_digit (CHR '','')"
  by (simp add: is_digit_def)

lemma dollar_not_digit: "\<not> is_digit (CHR ''$'')"
  by (simp add: is_digit_def)

lemma length_plus_three_mod: "length (a # b # c # rest) mod 3 = length rest mod 3"
proof -
  have "length (a # b # c # rest) = length rest + 3" by simp
  then show ?thesis by (simp only: mod_add_self2)
qed

lemma three_digit_groups_digits:
  "list_all is_digit t \<Longrightarrow> three_digit_groups t \<longleftrightarrow> t \<noteq> [] \<and> length t mod 3 = 0"
proof (induction t rule: three_digit_groups.induct)
  case (1 a b c rest)
  from "1.prems" have d: "is_digit a" "is_digit b" "is_digit c" "list_all is_digit rest"
    by simp_all
  from "1.IH" d have IH: "three_digit_groups rest \<longleftrightarrow> rest \<noteq> [] \<and> length rest mod 3 = 0"
    by simp
  have step: "three_digit_groups (a # b # c # rest) \<longleftrightarrow>
      (case rest of [] \<Rightarrow> True | e # _ \<Rightarrow> \<not> is_digit e) \<or> three_digit_groups rest"
    using d by simp
  have m: "length (a # b # c # rest) mod 3 = length rest mod 3"
    by (rule length_plus_three_mod)
  have ne: "a # b # c # rest \<noteq> []" by simp
  show ?case
  proof (cases rest)
    case Nil
    have "three_digit_groups (a # b # c # rest)"
      unfolding step by (simp add: Nil)
    moreover have "length (a # b # c # rest) mod 3 = 0"
      unfolding m by (simp add: Nil)
    ultimately show ?thesis using ne by metis
  next
    case (Cons e es)
    with d have "is_digit e" by simp
    then have "three_digit_groups (a # b # c # rest) \<longleftrightarrow> three_digit_groups rest"
      unfolding step by (simp add: Cons)
    also have "\<dots> \<longleftrightarrow> length rest mod 3 = 0"
      unfolding IH by (simp add: Cons)
    also have "\<dots> \<longleftrightarrow> length (a # b # c # rest) mod 3 = 0"
      unfolding m ..
    finally show ?thesis using ne by metis
  qed
qed simp_all

lemma comma_after_three_snoc:
  "comma_after_three (ys @ [d]) =
     comma_after_three ys @ (if ys \<noteq> [] \<and> length ys mod 3 = 0 then [CHR '','', d] else [d])"
proof (induction ys rule: comma_after_three.induct)
  case (1 a b c e rest)
  have m: "length (a # b # c # e # rest) mod 3 = length (e # rest) mod 3"
    by (rule length_plus_three_mod)
  have "comma_after_three ((a # b # c # e # rest) @ [d]) =
          a # b # c # CHR '','' # comma_after_three ((e # rest) @ [d])"
    by simp
  also have "\<dots> = a # b # c # CHR '','' # comma_after_three (e # rest) @
      (if length (e # rest) mod 3 = 0 then [CHR '','', d] else [d])"
    unfolding "1.IH" by simp
  also have "\<dots> = comma_after_three (a # b # c # e # rest) @
      (if a # b # c # e # rest \<noteq> [] \<and> length (a # b # c # e # rest) mod 3 = 0
       then [CHR '','', d] else [d])"
    unfolding m by simp
  finally show ?case .
qed simp_all

lemma group_from_right_Cons:
  "group_from_right (d # t) =
     d # (if t \<noteq> [] \<and> length t mod 3 = 0 then [CHR '',''] else []) @ group_from_right t"
  by (simp add: group_from_right_def comma_after_three_snoc)

lemma replace_after_digit:
  "list_all is_digit t \<Longrightarrow> is_digit d \<Longrightarrow>
   replace_with_commas (Some d) t =
     (if t \<noteq> [] \<and> length t mod 3 = 0 then [CHR '',''] else []) @ group_from_right t"
proof (induction t arbitrary: d)
  case Nil
  show ?case by (simp add: group_from_right_def)
next
  case (Cons c cs)
  then have c: "is_digit c" and cs: "list_all is_digit cs" by simp_all
  have nb: "not_word_boundary (Some d) (Some c)"
    using Cons.prems c by (simp add: not_word_boundary_def is_digit_is_word)
  have g: "three_digit_groups (c # cs) \<longleftrightarrow> length (c # cs) mod 3 = 0"
    using three_digit_groups_digits[OF Cons.prems(1)] by simp
  show ?case
    by (simp only: replace_with_commas.simps nb g Cons.IH[OF cs c] group_from_right_Cons) simp
qed

lemma replace_at_start:
  assumes "list_all is_digit t"
  shows "replace_with_commas None t = group_from_right t"
proof (cases t)
  case Nil
  then show ?thesis by (simp add: group_from_right_def)
next
  case (Cons c cs)
  with assms have c: "is_digit c" and cs: "list_all is_digit cs" by simp_all
  have nb: "\<not> not_word_boundary None (Some c)"
    using c by (simp add: not_word_boundary_def is_digit_is_word)
  show ?thesis
    unfolding Cons
    by (simp only: replace_with_commas.simps nb replace_after_digit[OF cs c] group_from_right_Cons)
      simp
qed

lemma filter_replace_with_commas:
  "\<not> P (CHR '','') \<Longrightarrow> filter P (replace_with_commas prev s) = filter P s"
  by (induction s arbitrary: prev) simp_all

lemma set_replace_with_commas:
  "set (replace_with_commas prev s) \<subseteq> insert (CHR '','') (set s)"
  by (induction s arbitrary: prev) auto

section \<open>Digits\<close>

lemma strip_chars: "c \<in> set (strip_non_numeric v) \<Longrightarrow> is_digit c \<or> c = CHR ''.''"
  by (auto simp: strip_non_numeric_def)

lemma integer_portion_subset: "set (integer_portion s) \<subseteq> set s"
  unfolding integer_portion_def by (auto dest: set_takeWhileD)

lemma fractional_portion_subset: "set (fractional_portion s) \<subseteq> set s"
  unfolding fractional_portion_def by (auto dest: set_dropWhileD)

lemma first_fraction_subset: "set (first_fraction s) \<subseteq> set s"
proof -
  have "set (tl (fractional_portion s)) \<subseteq> set s"
    using fractional_portion_subset[of s] by (cases "fractional_portion s") auto
  with integer_portion_subset[of "tl (fractional_portion s)"] show ?thesis
    unfolding first_fraction_def by blast
qed

lemma numeric_integer_portion:
  assumes "\<forall>c\<in>set s. is_digit c \<or> c = CHR ''.''"
  shows "list_all is_digit (integer_portion s)"
  using assms integer_portion_subset[of s] integer_portion_no_dot[of s]
  by (auto simp: list_all_iff)

lemma numeric_first_fraction:
  assumes "\<forall>c\<in>set s. is_digit c \<or> c = CHR ''.''"
  shows "list_all is_digit (first_fraction s)"
  using assms first_fraction_subset[of s] first_fraction_no_dot[of s]
  by (auto simp: list_all_iff)

lemma digits_no_dot: "list_all is_digit p \<Longrightarrow> CHR ''.'' \<notin> set p"
  using dot_not_digit by (auto simp: list_all_iff)

lemma digits_value_Nil: "digits_value [] = 0"
  by (simp add: digits_value_def)

section \<open>What remains of a formatted string after stripping\<close>

lemma strip_id:
  "\<forall>c\<in>set s. is_digit c \<or> c = CHR ''.'' \<Longrightarrow> strip_non_numeric s = s"
  by (simp add: strip_non_numeric_def)

lemma strip_append:
  "strip_non_numeric (xs @ ys) = strip_non_numeric xs @ strip_non_numeric ys"
  by (simp add: strip_non_numeric_def)

lemma strip_currency_prefix: "strip_non_numeric (currency_prefix cfg) = []"
  by (simp add: strip_non_numeric_def currency_prefix_def dollar_not_digit)

lemma strip_replace_with_commas:
  "strip_non_numeric (replace_with_commas prev s) = strip_non_numeric s"
  unfolding strip_non_numeric_def
  by (rule filter_replace_with_commas) (simp add: comma_not_digit)

lemma strip_digits: "list_all is_digit p \<Longrightarrow> strip_non_numeric p = p"
  by (rule strip_id) (simp add: list_all_iff)

lemma digits_take: "list_all is_digit q \<Longrightarrow> list_all is_digit (take k q)"
  by (auto simp: list_all_iff dest: in_set_takeD)

text \<open>The digits and the point that remain of a formatted string.\<close>

lemma strip_formatForDisplay:
  "strip_non_numeric (formatForDisplay cfg v) =
     (let n = strip_non_numeric v in
      if n = [] then []
      else integer_portion n @
           (if showCents cfg \<and> CHR ''.'' \<in> set n then CHR ''.'' # take 2 (first_fraction n) else []))"
proof -
  define n where "n = strip_non_numeric v"
  have num: "\<forall>c\<in>set n. is_digit c \<or> c = CHR ''.''"
    unfolding n_def using strip_chars by blast
  have ip: "list_all is_digit (integer_portion n)"
    using num by (rule numeric_integer_portion)
  have ff: "list_all is_digit (take 2 (first_fraction n))"
    using num by (intro digits_take numeric_first_fraction)
  have fr: "strip_non_numeric (CHR ''.'' # take 2 (first_fraction n)) =
      CHR ''.'' # take 2 (first_fraction n)"
    using ff by (intro strip_id) (simp add: list_all_iff)
  show ?thesis
    unfolding formatForDisplay_eq n_def[symmetric] Let_def
    by (simp add: strip_append strip_currency_prefix strip_replace_with_commas
        strip_digits[OF ip] fr strip_non_numeric_def[of "[]"])
qed

section \<open>The manual formatter on canonical strings\<close>

lemma canonical_chars: "canonical s \<Longrightarrow> \<forall>c\<in>set s. is_digit c \<or> c = CHR ''.''"
  by (simp add: canonical_def list_all_iff)

lemma split_at_first_dot: "s = integer_portion s @ fractional_portion s"
  by (simp add: integer_portion_def fractional_portion_def)

lemma fractional_portion_Cons:
  assumes "CHR ''.'' \<in> set s"
  shows "fractional_portion s = CHR ''.'' # tl (fractional_portion s)"
proof -
  from assms have ne: "fractional_portion s \<noteq> []"
    by (simp add: fractional_portion_Nil)
  then have "hd (fractional_portion s) = CHR ''.''"
    unfolding fractional_portion_def using hd_dropWhile[of "\<lambda>c. c \<noteq> CHR ''.''" s] by simp
  with ne show ?thesis by (cases "fractional_portion s") simp_all
qed

lemma canonical_fraction:
  assumes "canonical s" and "CHR ''.'' \<in> set s"
  shows "fractional_portion s = CHR ''.'' # first_fraction s"
    and "s = integer_portion s @ CHR ''.'' # first_fraction s"
proof -
  define r where "r = tl (fractional_portion s)"
  have fr: "fractional_portion s = CHR ''.'' # r"
    unfolding r_def using assms(2) by (rule fractional_portion_Cons)
  have s: "s = integer_portion s @ CHR ''.'' # r"
    using split_at_first_dot[of s] fr by simp
  have "length (filter (\<lambda>c. c = CHR ''.'') s) \<le> 1"
    using assms(1) by (simp add: canonical_def)
  then have "length (filter (\<lambda>c. c = CHR ''.'') (integer_portion s @ CHR ''.'' # r)) \<le> 1"
    using s by simp
  then have "filter (\<lambda>c. c = CHR ''.'') r = []"
    by simp
  then have "CHR ''.'' \<notin> set r"
    by (auto simp: filter_empty_conv)
  then have "first_fraction s = r"
    by (simp add: first_fraction_def r_def[symmetric] integer_portion_id)
  with fr s show "fractional_portion s = CHR ''.'' # first_fraction s"
    and "s = integer_portion s @ CHR ''.'' # first_fraction s"
    by simp_all
qed

lemma canonical_take3_fraction:
  assumes "canonical s"
  shows "take 3 (fractional_portion s) =
           (if CHR ''.'' \<in> set s then CHR ''.'' # take 2 (first_fraction s) else [])"
proof (cases "CHR ''.'' \<in> set s")
  case True
  have "take 3 (CHR ''.'' # first_fraction s) = CHR ''.'' # take 2 (first_fraction s)"
    by (simp add: numeral_3_eq_3 numeral_2_eq_2)
  with True canonical_fraction(1)[OF assms True] show ?thesis by simp
next
  case False
  then show ?thesis by (simp add: fractional_portion_Nil)
qed

lemma formatForDisplay_canonical:
  assumes "canonical s" and "s \<noteq> []"
  shows "formatForDisplay cfg s =
     currency_prefix cfg @ group_from_right (integer_portion s) @
     (if showCents cfg then take 3 (fractional_portion s) else [])"
proof -
  have num: "\<forall>c\<in>set s. is_digit c \<or> c = CHR ''.''"
    using assms(1) by (rule canonical_chars)
  have st: "strip_non_numeric s = s"
    using num by (rule strip_id)
  have ip: "list_all is_digit (integer_portion s)"
    using num by (rule numeric_integer_portion)
  show ?thesis
    unfolding formatForDisplay_eq st Let_def
    using assms(2)
    by (simp add: replace_at_start[OF ip] canonical_take3_fraction[OF assms(1)])
qed

lemma set_group_from_right: "set (group_from_right ds) \<subseteq> insert (CHR '','') (set ds)"
proof (induction ds)
  case Nil
  show ?case by (simp add: group_from_right_def)
next
  case (Cons d ds)
  then show ?case
    unfolding group_from_right_Cons by auto
qed

section \<open>The value of a digit string\<close>

lemma foldl_digits_acc:
  "foldl (\<lambda>a c. 10 * a + digit_value c) a ys =
     a * 10 ^ length ys + foldl (\<lambda>a c. 10 * a + digit_value c) 0 ys"
proof (induction ys arbitrary: a)
  case Nil
  show ?case by simp
next
  case (Cons y ys)
  have "foldl (\<lambda>a c. 10 * a + digit_value c) a (y # ys) =
          foldl (\<lambda>a c. 10 * a + digit_value c) (10 * a + digit_value y) ys"
    by simp
  also have "\<dots> = (10 * a + digit_value y) * 10 ^ length ys +
          foldl (\<lambda>a c. 10 * a + digit_value c) 0 ys"
    by (rule Cons.IH)
  also have "\<dots> = a * 10 ^ length (y # ys) +
          (digit_value y * 10 ^ length ys + foldl (\<lambda>a c. 10 * a + digit_value c) 0 ys)"
    by (simp add: algebra_simps)
  also have "digit_value y * 10 ^ length ys + foldl (\<lambda>a c. 10 * a + digit_value c) 0 ys =
          foldl (\<lambda>a c. 10 * a + digit_value c) (digit_value y) ys"
    by (rule Cons.IH[symmetric])
  also have "\<dots> = foldl (\<lambda>a c. 10 * a + digit_value c) 0 (y # ys)"
    by simp
  finally show ?case .
qed

lemma digits_value_append:
  "digits_value (xs @ ys) = digits_value xs * 10 ^ length ys + digits_value ys"
  unfolding digits_value_def foldl_append
  by (rule foldl_digits_acc)

lemma digit_value_le: "is_digit c \<Longrightarrow> digit_value c \<le> 9"
  by (auto simp: is_digit_def digit_value_def)

lemma digits_value_bound:
  "list_all is_digit ys \<Longrightarrow> digits_value ys < 10 ^ length ys"
proof (induction ys rule: rev_induct)
  case Nil
  show ?case by (simp add: digits_value_Nil)
next
  case (snoc c ys)
  then have "digits_value ys < 10 ^ length ys" and "digit_value c \<le> 9"
    by (simp_all add: digit_value_le)
  then have "10 * digits_value ys + digit_value c < 10 * 10 ^ length ys"
    by linarith
  then show ?case
    by (simp add: digits_value_append digits_value_def)
qed

section \<open>The strings the sanitizer produces\<close>

text \<open>Every string the sanitizer of \<open>handleChange\<close> produces is canonical, and without
  cents it has no point.\<close>

lemma cleanValue_of_canonical:
  "canonical (cleanValue_of cfg raw) \<and>
   (showCents cfg \<or> take 1 (cleanValue_of cfg raw) \<noteq> ''.'')"
proof -
  define n where "n = strip_non_numeric raw"
  have num: "\<forall>c\<in>set n. is_digit c \<or> c = CHR ''.''"
    unfolding n_def using strip_chars by blast
  have ip: "list_all is_digit (integer_portion n)"
    using num by (rule numeric_integer_portion)
  have ff: "list_all is_digit (first_fraction n)"
    using num by (rule numeric_first_fraction)
  have nd: "filter (\<lambda>c. c = CHR ''.'') p = []" if "list_all is_digit p" for p
    using that dot_not_digit by (auto simp: filter_empty_conv list_all_iff)
  have cv: "cleanValue_of cfg raw = integer_portion n @
      (if showCents cfg \<and> CHR ''.'' \<in> set n then CHR ''.'' # first_fraction n else [])"
    by (simp add: cleanValue_of_eq n_def Let_def)
  have "canonical (cleanValue_of cfg raw)"
    unfolding cv canonical_def using ip ff nd[OF ip] nd[OF ff] by (auto simp: list_all_iff)
  moreover have "take 1 (cleanValue_of cfg raw) \<noteq> ''.''" if "\<not> showCents cfg"
  proof
    assume "take 1 (cleanValue_of cfg raw) = ''.''"
    then have "CHR ''.'' \<in> set (take 1 (cleanValue_of cfg raw))" by simp
    then have "CHR ''.'' \<in> set (cleanValue_of cfg raw)" by (rule in_set_takeD)
    with that cv integer_portion_no_dot[of n] show False by simp
  qed
  ultimately show ?thesis by blast
qed

section \<open>The focus handler and the effect\<close>

lemma handleFocus_eq:
  "handleFocus fmt cfg v st =
     \<lparr>displayValue = (if v = 0 then ''$'' else fmt (formatter_options cfg) v), isFocused = True\<rparr>"
  by (simp add: handleFocus_def)

text \<open>
  When the effect runs on the state the focus handler leaves for the value \<open>0\<close>, as it
  does after the focus flag has changed, the bare symbol gives way to the rendering of \<open>0\<close>.
\<close>

lemma effect_after_focus_on_zero:
  "sync_effect fmt cfg 0 (handleFocus fmt cfg 0 st) =
     \<lparr>displayValue = fmt (formatter_options cfg) 0, isFocused = True\<rparr>"
  by (simp add: handleFocus_def sync_effect_def)

section \<open>The decimal literal and its double\<close>

lemma decimal_literal_digits:
  assumes "list_all is_digit p"
  shows "decimal_literal p = (if p = [] then None else Some (digits_value p, 0))"
proof -
  from assms have t: "takeWhile is_digit p = p" and d: "dropWhile is_digit p = []"
    by (simp_all add: list_all_iff)
  show ?thesis
    unfolding decimal_literal_def Let_def t d by simp
qed

lemma decimal_literal_digits_dot:
  assumes "list_all is_digit p" and "list_all is_digit q"
  shows "decimal_literal (p @ CHR ''.'' # q) =
     (if p = [] \<and> q = [] then None else Some (digits_value (p @ q), length q))"
proof -
  from assms(1) have t: "takeWhile is_digit (p @ CHR ''.'' # q) = p"
    and d: "dropWhile is_digit (p @ CHR ''.'' # q) = CHR ''.'' # q"
    by (simp_all add: list_all_iff dot_not_digit)
  from assms(2) have tq: "takeWhile is_digit q = q"
    by (simp add: list_all_iff)
  show ?thesis
    unfolding decimal_literal_def Let_def t d by (simp add: tq)
qed

text \<open>A literal is read as a non-negative finite number or as \<open>Infinity\<close>.\<close>

lemma nearest_double_cases:
  "nearest_double n d = Infinity \<or> (\<exists>r. nearest_double n d = Finite r \<and> 0 \<le> r)"
proof -
  have "0 \<le> of_nat m * pow2 u" for m :: nat and u
    by (simp add: pow2_def)
  then show ?thesis
    unfolding nearest_double_def Let_def by auto
qed

lemma parseFloat_cases:
  "(parseFloat s = NaN \<and> decimal_literal s = None) \<or> parseFloat s = Infinity \<or>
   (\<exists>r. parseFloat s = Finite r \<and> 0 \<le> r)"
proof (cases "decimal_literal s")
  case None
  then show ?thesis by (simp add: parseFloat_def)
next
  case (Some l)
  with nearest_double_cases[of "fst l" "10 ^ snd l"] show ?thesis
    by (auto simp: parseFloat_def double_of_decimal_def)
qed

lemma isNaN_parseFloat: "isNaN (parseFloat s) \<longleftrightarrow> decimal_literal s = None"
  using parseFloat_cases[of s]
  by (cases "decimal_literal s") (auto simp: isNaN_def parseFloat_def)

subsection \<open>Overflow\<close>

lemma bit_length_lower: "0 < n \<Longrightarrow> 2 ^ (bit_length n - 1) \<le> n"
proof (induction n rule: bit_length.induct)
  case (1 n)
  show ?case
  proof (cases "n div 2 = 0")
    case True
    with "1.prems" have "n = 1" by (simp add: div_eq_0_iff) 
    then show ?thesis by (simp add: bit_length.simps)
  next
    case False
    with "1.prems" "1.IH" have IH: "2 ^ (bit_length (n div 2) - 1) \<le> n div 2"
      by simp
    from False have pos: "0 < bit_length (n div 2)"
      by (subst bit_length.simps) simp
    have "bit_length n = Suc (bit_length (n div 2))"
      using "1.prems" by (subst bit_length.simps) simp
    then have "bit_length n - 1 = Suc (bit_length (n div 2) - 1)"
      using pos by simp
    then have "(2::nat) ^ (bit_length n - 1) = 2 * 2 ^ (bit_length (n div 2) - 1)"
      by simp
    also have "\<dots> \<le> 2 * (n div 2)"
      using IH by simp
    also have "\<dots> \<le> n"
      by simp
    finally show ?thesis .
  qed
qed

lemma bit_length_greater: "2 ^ k \<le> n \<Longrightarrow> k < bit_length n"
proof (induction k arbitrary: n)
  case 0
  then have "0 < n" by simp
  then show ?case by (subst bit_length.simps) simp
next
  case (Suc k)
  then have "2 ^ k \<le> n div 2" by simp
  then have "k < bit_length (n div 2)" by (rule Suc.IH)
  moreover have "n \<noteq> 0"
  proof
    assume "n = 0"
    with Suc.prems have "(2::nat) ^ Suc k \<le> 0" by simp
    then show False by simp
  qed
  ultimately show ?case by (subst bit_length.simps) simp
qed

lemma nearest_double_overflow:
  assumes "2 ^ 1024 \<le> n"
  shows "nearest_double n 1 = Infinity"
proof -
  from assms have pos: "0 < n"
    by (metis gr0I not_le zero_less_numeral zero_less_power)
  have b: "1024 < bit_length n"
    using assms by (rule bit_length_greater)
  have one: "bit_length 1 = 1"
    by (simp add: bit_length.simps)
  have "binary_exponent n 1 = int (bit_length n) - 1"
    unfolding binary_exponent_def Let_def one
    using bit_length_lower[OF pos] b by (simp add: nat_diff_distrib')
  with b have "1024 \<le> binary_exponent n 1" by simp
  with pos show ?thesis
    by (simp add: nearest_double_def Let_def)
qed

lemma digits_value_snoc: "digits_value (ds @ [c]) = 10 * digits_value ds + digit_value c"
  by (simp add: digits_value_def)

lemma digits_value_nines: "digits_value (replicate n (CHR ''9'')) = 10 ^ n - 1"
proof (induction n)
  case 0
  show ?case by (simp add: digits_value_Nil)
next
  case (Suc n)
  have "digits_value (replicate (Suc n) (CHR ''9'')) =
          digits_value (replicate n (CHR ''9'') @ [CHR ''9''])"
    by (simp add: replicate_append_same)
  also have "\<dots> = 10 * (10 ^ n - 1) + 9"
    by (simp only: digits_value_snoc Suc.IH) (simp add: digit_value_def)
  also have "\<dots> = 10 ^ Suc n - 1"
  proof -
    have "(1::nat) \<le> 10 ^ n" by simp
    then show ?thesis by (simp add: algebra_simps)
  qed
  finally show ?case .
qed

lemma parseFloat_nines: "parseFloat (replicate 400 (CHR ''9'')) = Infinity"
proof -
  have d: "list_all is_digit (replicate 400 (CHR ''9''))"
    by (simp add: list_all_iff is_digit_def)
  have ne: "replicate 400 (CHR ''9'') \<noteq> []"
    by simp
  have "(2::nat) ^ 1024 \<le> 10 ^ 400 - 1"
    by simp
  then have "nearest_double (10 ^ 400 - 1) 1 = Infinity"
    by (rule nearest_double_overflow)
  then show ?thesis
    using decimal_literal_digits[OF d] ne
    by (simp add: parseFloat_def double_of_decimal_def digits_value_nines)
qed

subsection \<open>Digit strings pass the sanitizer unchanged\<close>

lemma cleanValue_of_digits:
  assumes "list_all is_digit ds"
  shows "cleanValue_of cfg ds = ds"
proof -
  have nd: "CHR ''.'' \<notin> set ds"
    using assms by (rule digits_no_dot)
  have "strip_non_numeric ds = ds"
    using assms by (rule strip_digits)
  then show ?thesis
    using nd by (simp add: cleanValue_of_eq Let_def integer_portion_id)
qed

subsection \<open>Dropping fractional digits\<close>

lemma decimal_value_cut_fraction:
  "decimal_value (cut_fraction d l) = truncate_to d (decimal_value l)"
proof -
  obtain m k where l: "l = (m, k)" by (cases l)
  show ?thesis
  proof (cases "k \<le> d")
    case True
    then obtain j where j: "d = k + j"
      using le_Suc_ex by blast
    have "(of_nat m / 10 ^ k) * 10 ^ d = (of_nat (m * 10 ^ j) :: rat)"
      by (simp add: j power_add)
    then have "truncate_to d (of_nat m / 10 ^ k) = (of_nat (m * 10 ^ j) :: rat) / 10 ^ d"
      unfolding truncate_to_def by (simp only: floor_of_nat of_int_of_nat_eq)
    also have "\<dots> = of_nat m / 10 ^ k"
      by (simp add: j power_add)
    finally show ?thesis
      using True by (simp add: l decimal_value_def cut_fraction_def min_def)
  next
    case False
    then obtain j where j: "k = d + j"
      using le_Suc_ex by (metis nat_le_linear)
    have "(of_nat m / 10 ^ k) * 10 ^ d = (of_nat m / of_nat (10 ^ j) :: rat)"
      by (simp add: j power_add)
    then have "truncate_to d (of_nat m / 10 ^ k) = (of_nat (m div 10 ^ j) :: rat) / 10 ^ d"
      unfolding truncate_to_def by (simp only: floor_divide_of_nat_eq of_int_of_nat_eq)
    then show ?thesis
      using False by (simp add: l j decimal_value_def cut_fraction_def min_def)
  qed
qed

lemma digits_value_take:
  assumes "list_all is_digit q"
  shows "digits_value (p @ take d q) = digits_value (p @ q) div 10 ^ (length q - d)"
proof -
  define r where "r = drop d q"
  have dr: "list_all is_digit r"
    using assms unfolding r_def by (auto simp: list_all_iff dest: in_set_dropD)
  have lr: "length r = length q - d"
    by (simp add: r_def)
  have "p @ q = (p @ take d q) @ r"
    by (simp add: r_def)
  then have "digits_value (p @ q) = digits_value (p @ take d q) * 10 ^ length r + digits_value r"
    by (simp only: digits_value_append)
  moreover have "digits_value r < 10 ^ length r"
    using dr by (rule digits_value_bound)
  ultimately have "digits_value (p @ q) div 10 ^ length r = digits_value (p @ take d q)"
    by simp
  then show ?thesis
    by (simp add: lr)
qed

section \<open>The round trip on canonical strings\<close>

lemma take_eq_Nil_2: "take 2 q = [] \<longleftrightarrow> q = []"
  by (cases q) simp_all

lemma cut_fraction_id: "snd l \<le> d \<Longrightarrow> cut_fraction d l = l"
  by (simp add: cut_fraction_def min_def)

text \<open>
  The literal read from the stripped output of the formatter is the literal of the input
  with the fractional digits beyond the precision dropped, provided the input does not
  begin with the point when cents are not shown.
\<close>

lemma round_trip_canonical:
  assumes "canonical s" and "showCents cfg \<or> take 1 s \<noteq> ''.''"
  shows "decimal_literal (strip_non_numeric (formatForDisplay cfg s)) =
           map_option (cut_fraction (fraction_digits cfg)) (decimal_literal s)"
proof (cases "s = []")
  case True
  then show ?thesis
    by (simp add: formatForDisplay_def strip_non_numeric_def decimal_literal_def)
next
  case ne: False
  have num: "\<forall>c\<in>set s. is_digit c \<or> c = CHR ''.''"
    using assms(1) by (rule canonical_chars)
  have st: "strip_non_numeric s = s"
    using num by (rule strip_id)
  have ip: "list_all is_digit (integer_portion s)"
    using num by (rule numeric_integer_portion)
  have ff: "list_all is_digit (first_fraction s)"
    using num by (rule numeric_first_fraction)
  have stripped: "strip_non_numeric (formatForDisplay cfg s) =
      integer_portion s @
      (if showCents cfg \<and> CHR ''.'' \<in> set s then CHR ''.'' # take 2 (first_fraction s) else [])"
    unfolding strip_formatForDisplay st Let_def using ne by simp
  show ?thesis
  proof (cases "CHR ''.'' \<in> set s")
    case False
    then have s: "integer_portion s = s"
      by (rule integer_portion_id)
    from False stripped s have "strip_non_numeric (formatForDisplay cfg s) = s"
      by simp
    moreover have "decimal_literal s = Some (digits_value s, 0)"
      using decimal_literal_digits[OF ip] ne unfolding s by simp
    ultimately show ?thesis
      by (simp add: cut_fraction_id)
  next
    case dot: True
    have s: "s = integer_portion s @ CHR ''.'' # first_fraction s"
      using assms(1) dot by (rule canonical_fraction(2))
    have ls: "decimal_literal s =
        (if integer_portion s = [] \<and> first_fraction s = [] then None
         else Some (digits_value (integer_portion s @ first_fraction s),
                    length (first_fraction s)))"
      using decimal_literal_digits_dot[OF ip ff] s by simp
    show ?thesis
    proof (cases "showCents cfg")
      case True
      have ff2: "list_all is_digit (take 2 (first_fraction s))"
        using ff by (rule digits_take)
      from True dot stripped
      have "strip_non_numeric (formatForDisplay cfg s) =
          integer_portion s @ CHR ''.'' # take 2 (first_fraction s)"
        by simp
      then have "decimal_literal (strip_non_numeric (formatForDisplay cfg s)) =
          (if integer_portion s = [] \<and> first_fraction s = [] then None
           else Some (digits_value (integer_portion s @ take 2 (first_fraction s)),
                      length (take 2 (first_fraction s))))"
        using decimal_literal_digits_dot[OF ip ff2] by (simp add: take_eq_Nil_2)
      also have "\<dots> = map_option (cut_fraction 2) (decimal_literal s)"
        unfolding ls by (simp add: cut_fraction_def digits_value_take[OF ff] min.commute)
      finally show ?thesis
        using True by (simp add: fraction_digits_def)
    next
      case False
      with assms(2) have "take 1 s \<noteq> ''.''" by blast
      have ipne: "integer_portion s \<noteq> []"
      proof
        assume "integer_portion s = []"
        with s obtain r where "s = CHR ''.'' # r" by simp
        then have "take 1 s = ''.''" by simp
        with \<open>take 1 s \<noteq> ''.''\<close> show False ..
      qed
      from False stripped
      have "strip_non_numeric (formatForDisplay cfg s) = integer_portion s"
        by simp
      then have "decimal_literal (strip_non_numeric (formatForDisplay cfg s)) =
          Some (digits_value (integer_portion s), 0)"
        using decimal_literal_digits[OF ip] ipne by simp
      also have "\<dots> = map_option (cut_fraction 0) (decimal_literal s)"
        unfolding ls using ipne digits_value_take[OF ff, of "integer_portion s" 0]
        by (simp add: cut_fraction_def)
      finally show ?thesis
        using False by (simp add: fraction_digits_def)
    qed
  qed
qed

lemma literal_fraction_length:
  assumes "canonical s" and "decimal_literal s = Some l"
  shows "snd l \<le> length (first_fraction s)"
proof (cases "CHR ''.'' \<in> set s")
  case False
  have num: "\<forall>c\<in>set s. is_digit c \<or> c = CHR ''.''"
    using assms(1) by (rule canonical_chars)
  with False have "list_all is_digit s"
    by (auto simp: list_all_iff)
  from decimal_literal_digits[OF this] assms(2) show ?thesis
    by (auto split: if_splits)
next
  case True
  have num: "\<forall>c\<in>set s. is_digit c \<or> c = CHR ''.''"
    using assms(1) by (rule canonical_chars)
  have ip: "list_all is_digit (integer_portion s)"
    using num by (rule numeric_integer_portion)
  have ff: "list_all is_digit (first_fraction s)"
    using num by (rule numeric_first_fraction)
  have "s = integer_portion s @ CHR ''.'' # first_fraction s"
    using assms(1) True by (rule canonical_fraction(2))
  with decimal_literal_digits_dot[OF ip ff] assms(2) show ?thesis
    by (auto split: if_splits)
qed

section \<open>Formatting a formatted string again\<close>



section \<open>The claims\<close>

text \<open>
  Claim C1 (cents truncation of the reported value). With \<open>showCents\<close> set,
  \<open>handleChange\<close> keeps the whole first fractional segment: for the raw text \<open>12.999\<close>
  the canonical string is \<open>12.999\<close> and \<open>setValue\<close> receives the double of \<open>12.999\<close>, while
  the display, which goes through \<open>formatForDisplay\<close> and its \<open>slice(0, 2)\<close>, shows
  \<open>$12.99\<close>. The double of \<open>12.99\<close> is another number.
\<close>

theorem cents_kept_beyond_two_digits:
  "cleanValue_of (default_config\<lparr>showCents := True\<rparr>) ''12.999'' = ''12.999'' \<and>
   handleChange (default_config\<lparr>showCents := True\<rparr>) ''12.999'' initial_state =
     (\<lparr>displayValue = ''$12.99'', isFocused = False\<rparr>,
      Some (Finite (7317786444523635 / 2 ^ 49))) \<and>
   parseFloat ''12.999'' = Finite (7317786444523635 / 2 ^ 49) \<and>
   parseFloat ''12.99'' = Finite (7312719894942843 / 2 ^ 49)"
  by (simp add: string_eval number_eval config_eval)

text \<open>
  Claim C2 (range invariant), as stated, fails in four configurations. Without cents the
  clamped value is floored after clamping, so a lower bound \<open>1/2\<close> lets the edit \<open>0\<close>
  report \<open>0\<close>, below the bound. With \<open>minValue = 5\<close> above \<open>maxValue = 3\<close> the edit \<open>4\<close>
  reports \<open>3\<close>, below \<open>minValue\<close>. With \<open>maxValue = Infinity\<close> an edit of four hundred
  nines reports \<open>Infinity\<close>, and with \<open>minValue = NaN\<close> the edit \<open>5\<close> reports \<open>NaN\<close>:
  neither is finite.
\<close>

theorem range_invariant_counterexample:
  "snd (handleChange (default_config\<lparr>minValue := Finite (1 / 2), maxValue := Finite 10\<rparr>)
         ''0'' initial_state) = Some (Finite 0) \<and>
   \<not> (1 / 2 :: rat) \<le> 0 \<and>
   snd (handleChange (default_config\<lparr>minValue := Finite 5, maxValue := Finite 3\<rparr>)
         ''4'' initial_state) = Some (Finite 3) \<and>
   \<not> (5 :: rat) \<le> 3 \<and>
   snd (handleChange (default_config\<lparr>maxValue := Infinity\<rparr>)
         (replicate 400 (CHR ''9'')) initial_state) = Some Infinity \<and>
   snd (handleChange (default_config\<lparr>minValue := NaN\<rparr>) ''5'' initial_state) = Some NaN"
proof -
  have a: "snd (handleChange (default_config\<lparr>minValue := Finite (1 / 2), maxValue := Finite 10\<rparr>)
         ''0'' initial_state) = Some (Finite 0)"
    by (simp add: string_eval number_eval config_eval)
  have b: "snd (handleChange (default_config\<lparr>minValue := Finite 5, maxValue := Finite 3\<rparr>)
         ''4'' initial_state) = Some (Finite 3)"
    by (simp add: string_eval number_eval config_eval)
  have d: "list_all is_digit (replicate 400 (CHR ''9''))"
    by (simp add: list_all_iff is_digit_def)
  have c: "snd (handleChange (default_config\<lparr>maxValue := Infinity\<rparr>)
         (replicate 400 (CHR ''9'')) initial_state) = Some Infinity"
    by (simp add: handleChange_def reported_value_def cleanValue_of_digits[OF d] parseFloat_nines
        isNaN_def config_eval)
  have e: "snd (handleChange (default_config\<lparr>minValue := NaN\<rparr>) ''5'' initial_state) = Some NaN"
    by (simp add: string_eval number_eval config_eval)
  from a b c e show ?thesis by simp
qed

text \<open>
  Claim C2, amended. When the bounds are finite numbers with \<open>minValue \<le> maxValue\<close>, the
  number \<open>v\<close> a change event passes to \<open>setValue\<close> is finite; it is \<open>0\<close> for an empty
  canonical string; for a non-empty one it is at most \<open>maxValue\<close> and at least the floor
  of \<open>minValue\<close>, and at least \<open>minValue\<close> itself when cents are shown or \<open>minValue\<close> is an
  integer.
\<close>

theorem reported_value_range:
  assumes "minValue cfg = Finite lo" and "maxValue cfg = Finite hi" and "lo \<le> hi"
    and "snd (handleChange cfg raw st) = Some v"
  shows "\<exists>r. v = Finite r \<and>
           (cleanValue_of cfg raw = [] \<longrightarrow> r = 0) \<and>
           (cleanValue_of cfg raw \<noteq> [] \<longrightarrow>
              r \<le> hi \<and> of_int \<lfloor>lo\<rfloor> \<le> r \<and> (showCents cfg \<or> lo \<in> \<int> \<longrightarrow> lo \<le> r))"
proof (cases "cleanValue_of cfg raw = []")
  case True
  with assms(4) show ?thesis
    by (auto simp: handleChange_def reported_value_def)
next
  case False
  define p where "p = parseFloat (cleanValue_of cfg raw)"
  from assms(4) False have nn: "\<not> isNaN p"
    and v: "v = (if showCents cfg then Math_min (Finite hi) (Math_max (Finite lo) p)
                 else Math_floor (Math_min (Finite hi) (Math_max (Finite lo) p)))"
    by (auto simp: handleChange_def reported_value_def Let_def p_def assms(1,2) split: if_splits)
  from nn parseFloat_cases[of "cleanValue_of cfg raw"]
  have "p = Infinity \<or> (\<exists>r. p = Finite r)"
    by (auto simp: p_def isNaN_def)
  then obtain c where cl: "Math_min (Finite hi) (Math_max (Finite lo) p) = Finite c"
    and c: "lo \<le> c" "c \<le> hi"
    using assms(3) by auto
  have fl: "of_int \<lfloor>c\<rfloor> \<le> c"
    by (rule of_int_floor_le)
  have lo': "(of_int \<lfloor>lo\<rfloor> :: rat) \<le> lo"
    by (rule of_int_floor_le)
  have "\<lfloor>lo\<rfloor> \<le> \<lfloor>c\<rfloor>"
    using c(1) by (rule floor_mono)
  then have lo: "(of_int \<lfloor>lo\<rfloor> :: rat) \<le> of_int \<lfloor>c\<rfloor>"
    by (simp only: of_int_le_iff)
  have int_lo: "lo \<le> of_int \<lfloor>c\<rfloor>" if "lo \<in> \<int>"
  proof -
    from that have "of_int \<lfloor>lo\<rfloor> = lo"
      by (rule Ints_cases) simp
    with lo show ?thesis by (simp only:)
  qed
  show ?thesis
  proof (cases "showCents cfg")
    case True
    then have "v = Finite c" by (simp add: v cl)
    moreover from c lo' have "c \<le> hi \<and> of_int \<lfloor>lo\<rfloor> \<le> c \<and> lo \<le> c" by linarith
    ultimately show ?thesis using False by blast
  next
    case sc: False
    then have "v = Finite (of_int \<lfloor>c\<rfloor>)" by (simp add: v cl)
    moreover from c fl have "of_int \<lfloor>c\<rfloor> \<le> hi" by linarith
    ultimately show ?thesis using False sc lo int_lo by blast
  qed
qed

text \<open>
  Claim C2, amended, at concrete inputs: the scenario of the bounds \<open>0\<close> and \<open>100\<close> with
  the raw text \<open>500\<close>, which reports \<open>100\<close>.
\<close>

theorem reported_value_range_witness:
  "minValue (default_config\<lparr>maxValue := Finite 100\<rparr>) = Finite 0 \<and>
   maxValue (default_config\<lparr>maxValue := Finite 100\<rparr>) = Finite 100 \<and>
   (0 :: rat) \<le> 100 \<and>
   snd (handleChange (default_config\<lparr>maxValue := Finite 100\<rparr>) ''500'' initial_state)
     = Some (Finite 100) \<and>
   (\<exists>r. Finite 100 = Finite r \<and> r \<le> 100 \<and> 0 \<le> r)"
proof -
  have h1: "minValue (default_config\<lparr>maxValue := Finite 100\<rparr>) = Finite 0"
    by (simp add: config_eval)
  have h2: "maxValue (default_config\<lparr>maxValue := Finite 100\<rparr>) = Finite 100"
    by (simp add: config_eval)
  have h3: "(0 :: rat) \<le> 100"
    by simp
  have h4: "snd (handleChange (default_config\<lparr>maxValue := Finite 100\<rparr>) ''500'' initial_state)
              = Some (Finite 100)"
    by (simp add: string_eval number_eval config_eval)
  have ne: "cleanValue_of (default_config\<lparr>maxValue := Finite 100\<rparr>) ''500'' \<noteq> []"
    by (simp add: string_eval config_eval)
  from reported_value_range[OF h1 h2 h3 h4] ne
  have "\<exists>r. Finite 100 = Finite r \<and> r \<le> 100 \<and> 0 \<le> r"
    by auto
  with h1 h2 h3 h4 show ?thesis by blast
qed

text \<open>
  Claim C3 (focus transition on a zero value). \<open>handleFocus\<close> writes the literal \<open>$\<close>
  whenever the value is \<open>0\<close>; it does not look at \<open>showCurrencySymbol\<close>. With the symbol
  switched off the display after the focus event is \<open>$\<close>, not the empty string.
\<close>

theorem focus_on_zero_ignores_symbol_setting:
  "handleFocus en_US_format (default_config\<lparr>showCurrencySymbol := False\<rparr>) 0 initial_state =
     \<lparr>displayValue = ''$'', isFocused = True\<rparr>"
  by (simp add: handleFocus_def config_eval)

text \<open>
  Claim C4 (empty versus zero), as stated, fails for an external load of \<open>0\<close> while the
  unfocused field still shows text: the effect then prints the formatted zero, \<open>$0\<close>.
\<close>

theorem zero_load_counterexample:
  "sync_effect en_US_format default_config 0 \<lparr>displayValue = ''$5'', isFocused = False\<rparr> =
     \<lparr>displayValue = ''$0'', isFocused = False\<rparr>"
  by (simp add: sync_effect_def format_eval config_eval)

text \<open>
  Claim C4, amended. A change event whose canonical string is empty (clearing all text is
  one) sets the display to the empty string and reports \<open>0\<close>. When the value \<open>0\<close> is
  loaded while the component is unfocused and the display is empty, the display stays
  empty; when the display is not empty it becomes the formatter's rendering of \<open>0\<close>.
\<close>

theorem empty_and_zero_display:
  "(cleanValue_of cfg raw = [] \<longrightarrow> handleChange cfg raw st = (st\<lparr>displayValue := []\<rparr>, Some (Finite 0))) \<and>
   (\<not> isFocused st \<and> displayValue st = [] \<longrightarrow> displayValue (sync_effect fmt cfg 0 st) = []) \<and>
   (displayValue st \<noteq> [] \<longrightarrow>
      displayValue (sync_effect fmt cfg 0 st) = fmt (formatter_options cfg) 0)"
  by (simp add: handleChange_def reported_value_def formatForDisplay_def strip_non_numeric_def
      sync_effect_def)

text \<open>
  Claim C4, amended, at concrete inputs: clearing a field that showed \<open>$7\<close>, loading \<open>0\<close>
  into the initial state, and loading \<open>0\<close> into an unfocused field that shows \<open>$7\<close>.
\<close>

theorem empty_and_zero_display_witness:
  "cleanValue_of default_config [] = [] \<and>
   handleChange default_config [] \<lparr>displayValue = ''$7'', isFocused = True\<rparr> =
     (\<lparr>displayValue = [], isFocused = True\<rparr>, Some (Finite 0)) \<and>
   displayValue (sync_effect en_US_format default_config 0 initial_state) = [] \<and>
   displayValue (sync_effect en_US_format default_config 0 \<lparr>displayValue = ''$7'', isFocused = False\<rparr>)
     = ''$0''"
proof -
  have c: "cleanValue_of default_config [] = []"
    by (simp add: string_eval)
  have f: "en_US_format (formatter_options default_config) 0 = ''$0''"
    by (simp add: format_eval config_eval)
  from empty_and_zero_display[of default_config "[]" "\<lparr>displayValue = ''$7'', isFocused = True\<rparr>"
      en_US_format]
    empty_and_zero_display[of default_config "[]" initial_state en_US_format]
    empty_and_zero_display[of default_config "[]" "\<lparr>displayValue = ''$7'', isFocused = False\<rparr>"
      en_US_format] c f
  show ?thesis by (simp add: initial_state_def)
qed

text \<open>
  Claim C5 (blur transition), as stated, fails when the value is \<open>0\<close> and the display is
  not the bare symbol: blurring a cleared field leaves the display empty, while the
  formatted rendering of \<open>0\<close> is \<open>$0\<close>.
\<close>

theorem blur_counterexample:
  "handleBlur en_US_format default_config 0 \<lparr>displayValue = [], isFocused = True\<rparr> =
     \<lparr>displayValue = [], isFocused = False\<rparr> \<and>
   en_US_format (formatter_options default_config) 0 = ''$0''"
  by (simp add: handleBlur_def format_eval config_eval)

text \<open>
  Claim C5, amended. On a blur event: if the value is \<open>0\<close> and the display is exactly
  \<open>$\<close>, the display becomes empty; if the value is not \<open>0\<close>, the display becomes the
  formatter's rendering of the value; if the value is \<open>0\<close> and the display is anything
  else, the display is left as it is. The focus flag is cleared in every case.
\<close>

theorem blur_transition:
  "(v = 0 \<and> displayValue st = ''$'' \<longrightarrow> handleBlur fmt cfg v st = \<lparr>displayValue = [], isFocused = False\<rparr>) \<and>
   (v \<noteq> 0 \<longrightarrow>
      handleBlur fmt cfg v st = \<lparr>displayValue = fmt (formatter_options cfg) v, isFocused = False\<rparr>) \<and>
   (v = 0 \<and> displayValue st \<noteq> ''$'' \<longrightarrow>
      handleBlur fmt cfg v st = \<lparr>displayValue = displayValue st, isFocused = False\<rparr>)"
  by (simp add: handleBlur_def)

text \<open>
  Claim C5, amended, at concrete inputs: one blur event for each of the three cases.
\<close>

theorem blur_transition_witness:
  "handleBlur en_US_format default_config 0 \<lparr>displayValue = ''$'', isFocused = True\<rparr> =
     \<lparr>displayValue = [], isFocused = False\<rparr> \<and>
   handleBlur en_US_format default_config 2500 \<lparr>displayValue = ''$2500'', isFocused = True\<rparr> =
     \<lparr>displayValue = ''$2,500'', isFocused = False\<rparr> \<and>
   handleBlur en_US_format default_config 0 \<lparr>displayValue = ''$00'', isFocused = True\<rparr> =
     \<lparr>displayValue = ''$00'', isFocused = False\<rparr>"
proof -
  have f: "en_US_format (formatter_options default_config) 2500 = ''$2,500''"
    by (simp add: format_eval config_eval)
  from blur_transition[of 0 "\<lparr>displayValue = ''$'', isFocused = True\<rparr>" en_US_format default_config]
    blur_transition[of 2500 "\<lparr>displayValue = ''$2500'', isFocused = True\<rparr>" en_US_format default_config]
    blur_transition[of 0 "\<lparr>displayValue = ''$00'', isFocused = True\<rparr>" en_US_format default_config]
    f
  show ?thesis by simp
qed

text \<open>
  Claim C6 (unparsable input). A change event whose canonical string is not empty and
  does not parse does not call \<open>setValue\<close>, and the display is set to the manual
  formatting of the canonical string. The only such canonical string is the bare point,
  which is shown as \<open>$.\<close> with the currency symbol and as \<open>.\<close> without it.
\<close>

theorem unparsable_input_not_reported:
  assumes "cleanValue_of cfg raw \<noteq> []" and "parseFloat (cleanValue_of cfg raw) = NaN"
  shows "handleChange cfg raw st =
           (st\<lparr>displayValue := formatForDisplay cfg (cleanValue_of cfg raw)\<rparr>, None) \<and>
         cleanValue_of cfg raw = ''.'' \<and>
         formatForDisplay cfg (cleanValue_of cfg raw) =
           (if showCurrencySymbol cfg then ''$.'' else ''.'')"
proof -
  define n where "n = strip_non_numeric raw"
  have num: "\<forall>c\<in>set n. is_digit c \<or> c = CHR ''.''"
    unfolding n_def using strip_chars by blast
  have ip: "list_all is_digit (integer_portion n)"
    using num by (rule numeric_integer_portion)
  have ff: "list_all is_digit (first_fraction n)"
    using num by (rule numeric_first_fraction)
  have cv: "cleanValue_of cfg raw = integer_portion n @
      (if showCents cfg \<and> CHR ''.'' \<in> set n then CHR ''.'' # first_fraction n else [])"
    by (simp add: cleanValue_of_eq n_def Let_def)
  have lit: "decimal_literal (cleanValue_of cfg raw) = None"
    using assms(2) isNaN_parseFloat[of "cleanValue_of cfg raw"] by (simp add: isNaN_def)
  have dot: "showCents cfg \<and> CHR ''.'' \<in> set n"
  proof (rule ccontr)
    assume "\<not> ?thesis"
    then have "cleanValue_of cfg raw = integer_portion n" using cv by simp
    with assms(1) lit decimal_literal_digits[OF ip] show False by simp
  qed
  with cv have cv': "cleanValue_of cfg raw = integer_portion n @ CHR ''.'' # first_fraction n"
    by simp
  from lit cv' decimal_literal_digits_dot[OF ip ff]
  have e: "integer_portion n = []" "first_fraction n = []"
    by (simp_all split: if_splits)
  with cv' have c: "cleanValue_of cfg raw = ''.''" by simp
  have 1: "handleChange cfg raw st =
           (st\<lparr>displayValue := formatForDisplay cfg (cleanValue_of cfg raw)\<rparr>, None)"
    using assms by (simp add: handleChange_def reported_value_def isNaN_def)
  have 2: "formatForDisplay cfg ''.'' = (if showCurrencySymbol cfg then ''$.'' else ''.'')"
    using dot
    by (simp add: formatForDisplay_def strip_non_numeric_def addCommas_def)
  from 1 2 c show ?thesis by simp
qed

text \<open>
  Claim C6 at a concrete input: with cents shown, the raw text \<open>.\<close> changes the display
  to \<open>$.\<close> and reports nothing.
\<close>

theorem unparsable_input_not_reported_witness:
  "cleanValue_of (default_config\<lparr>showCents := True\<rparr>) ''.'' \<noteq> [] \<and>
   parseFloat (cleanValue_of (default_config\<lparr>showCents := True\<rparr>) ''.'') = NaN \<and>
   handleChange (default_config\<lparr>showCents := True\<rparr>) ''.'' initial_state =
     (\<lparr>displayValue = ''$.'', isFocused = False\<rparr>, None)"
proof -
  have c: "cleanValue_of (default_config\<lparr>showCents := True\<rparr>) ''.'' = ''.''"
    by (simp add: string_eval config_eval)
  have h1: "cleanValue_of (default_config\<lparr>showCents := True\<rparr>) ''.'' \<noteq> []"
    by (simp add: c)
  have h2: "parseFloat (cleanValue_of (default_config\<lparr>showCents := True\<rparr>) ''.'') = NaN"
    by (simp add: c parseFloat_def decimal_literal_def is_digit_def)
  have sym: "showCurrencySymbol (default_config\<lparr>showCents := True\<rparr>)"
    by (simp add: config_eval)
  from unparsable_input_not_reported[OF h1 h2, of initial_state]
  have "handleChange (default_config\<lparr>showCents := True\<rparr>) ''.'' initial_state =
          (initial_state\<lparr>displayValue := ''$.''\<rparr>, None)"
    by (simp add: c sym)
  with h1 h2 show ?thesis by (simp add: initial_state_def)
qed

text \<open>
  Claim C7 (integer policy), as stated, fails when a bound is not a finite number. With
  \<open>maxValue = Infinity\<close> an edit of four hundred nines parses to \<open>Infinity\<close>, which the
  clamp and \<open>Math.floor\<close> leave as it is; with \<open>minValue = NaN\<close> the clamp of the edit \<open>5\<close>
  is \<open>NaN\<close>. Both are passed to \<open>setValue\<close> and neither is an integer.
\<close>

theorem integer_policy_counterexample:
  "\<not> showCents (default_config\<lparr>maxValue := Infinity\<rparr>) \<and>
   snd (handleChange (default_config\<lparr>maxValue := Infinity\<rparr>)
         (replicate 400 (CHR ''9'')) initial_state) = Some Infinity \<and>
   \<not> showCents (default_config\<lparr>minValue := NaN\<rparr>) \<and>
   snd (handleChange (default_config\<lparr>minValue := NaN\<rparr>) ''5'' initial_state) = Some NaN"
proof -
  have d: "list_all is_digit (replicate 400 (CHR ''9''))"
    by (simp add: list_all_iff is_digit_def)
  have a: "snd (handleChange (default_config\<lparr>maxValue := Infinity\<rparr>)
         (replicate 400 (CHR ''9'')) initial_state) = Some Infinity"
    by (simp add: handleChange_def reported_value_def cleanValue_of_digits[OF d] parseFloat_nines
        isNaN_def config_eval)
  have b: "snd (handleChange (default_config\<lparr>minValue := NaN\<rparr>) ''5'' initial_state) = Some NaN"
    by (simp add: string_eval number_eval config_eval)
  from a b show ?thesis by (simp add: config_eval)
qed

text \<open>
  Claim C7, amended. Without cents and with finite numbers as bounds, every number a
  change event passes to \<open>setValue\<close> is an integer, whatever the raw text.
\<close>

theorem integer_policy:
  assumes "\<not> showCents cfg" and "minValue cfg = Finite lo" and "maxValue cfg = Finite hi"
    and "snd (handleChange cfg raw st) = Some v"
  shows "\<exists>k :: int. v = Finite (of_int k)"
proof (cases "cleanValue_of cfg raw = []")
  case True
  with assms(4) have "v = Finite (of_int 0)"
    by (auto simp: handleChange_def reported_value_def)
  then show ?thesis ..
next
  case False
  define p where "p = parseFloat (cleanValue_of cfg raw)"
  from assms(1,4) False have nn: "\<not> isNaN p"
    and v: "v = Math_floor (Math_min (Finite hi) (Math_max (Finite lo) p))"
    by (auto simp: handleChange_def reported_value_def Let_def p_def assms(2,3) split: if_splits)
  from nn parseFloat_cases[of "cleanValue_of cfg raw"]
  have "p = Infinity \<or> (\<exists>r. p = Finite r)"
    by (auto simp: p_def isNaN_def)
  then obtain c where "Math_min (Finite hi) (Math_max (Finite lo) p) = Finite c"
    by auto
  with v have "v = Finite (of_int \<lfloor>c\<rfloor>)" by simp
  then show ?thesis ..
qed

text \<open>
  Claim C7, amended, at a concrete input: with the bounds \<open>1/2\<close> and \<open>10\<close>, the raw text
  \<open>0.7\<close> reports the integer \<open>0\<close>.
\<close>

theorem integer_policy_witness:
  "\<not> showCents (default_config\<lparr>minValue := Finite (1 / 2), maxValue := Finite 10\<rparr>) \<and>
   minValue (default_config\<lparr>minValue := Finite (1 / 2), maxValue := Finite 10\<rparr>) = Finite (1 / 2) \<and>
   maxValue (default_config\<lparr>minValue := Finite (1 / 2), maxValue := Finite 10\<rparr>) = Finite 10 \<and>
   snd (handleChange (default_config\<lparr>minValue := Finite (1 / 2), maxValue := Finite 10\<rparr>)
         ''0.7'' initial_state) = Some (Finite 0) \<and>
   (\<exists>k :: int. Finite 0 = Finite (of_int k))"
proof -
  have h1: "\<not> showCents (default_config\<lparr>minValue := Finite (1 / 2), maxValue := Finite 10\<rparr>)"
    by (simp add: config_eval)
  have h2: "minValue (default_config\<lparr>minValue := Finite (1 / 2), maxValue := Finite 10\<rparr>)
              = Finite (1 / 2)"
    by (simp add: config_eval)
  have h3: "maxValue (default_config\<lparr>minValue := Finite (1 / 2), maxValue := Finite 10\<rparr>)
              = Finite 10"
    by (simp add: config_eval)
  have h4: "snd (handleChange (default_config\<lparr>minValue := Finite (1 / 2), maxValue := Finite 10\<rparr>)
         ''0.7'' initial_state) = Some (Finite 0)"
    by (simp add: string_eval number_eval config_eval)
  from integer_policy[OF h1 h2 h3 h4] h1 h2 h3 h4 show ?thesis by blast
qed

text \<open>
  Claim C8 (shape of the manual formatter's output), as stated, fails for the empty
  canonical string: \<open>formatForDisplay\<close> returns the empty string before it comes to the
  prefix, so the result has no \<open>$\<close> although \<open>showCurrencySymbol\<close> is set.
\<close>

theorem manual_formatter_shape_counterexample:
  "canonical [] \<and> showCurrencySymbol default_config \<and>
   formatForDisplay default_config [] = [] \<and>
   take 1 (formatForDisplay default_config []) \<noteq> ''$''"
  by (simp add: canonical_def string_eval config_eval)

text \<open>
  Claim C8, amended. For every non-empty canonical numeric string, the manual formatter
  returns the integer portion with a comma every three digits counted from the right,
  preceded by \<open>$\<close> if and only if \<open>showCurrencySymbol\<close> is set, and followed by the point
  and at most two fractional digits when cents are shown (by nothing otherwise); no comma
  stands in the fractional portion of the result. Typing \<open>1000000\<close> under the default
  configuration displays \<open>$1,000,000\<close> and reports \<open>1000000\<close>.
\<close>

theorem manual_formatter_shape:
  assumes "canonical s" and "s \<noteq> []"
  shows "formatForDisplay cfg s =
           (if showCurrencySymbol cfg then ''$'' else []) @
           group_from_right (integer_portion s) @
           (if showCents cfg then take 3 (fractional_portion s) else []) \<and>
         (take 1 (formatForDisplay cfg s) = ''$'') = showCurrencySymbol cfg \<and>
         CHR '','' \<notin> set (fractional_portion (formatForDisplay cfg s)) \<and>
         handleChange default_config ''1000000'' st =
           (st\<lparr>displayValue := ''$1,000,000''\<rparr>, Some (Finite 1000000))"
proof -
  define G where "G = group_from_right (integer_portion s)"
  define F where "F = (if showCents cfg then take 3 (fractional_portion s) else [])"
  have num: "\<forall>c\<in>set s. is_digit c \<or> c = CHR ''.''"
    using assms(1) by (rule canonical_chars)
  have shape: "formatForDisplay cfg s = currency_prefix cfg @ G @ F"
    unfolding G_def F_def using assms by (rule formatForDisplay_canonical)
  have setG: "set G \<subseteq> insert (CHR '','') (set s)"
    unfolding G_def using set_group_from_right[of "integer_portion s"] integer_portion_subset[of s]
    by blast
  have setF: "set F \<subseteq> set s"
    unfolding F_def using fractional_portion_subset[of s]
    by (auto dest: in_set_takeD)
  have no_dollar: "CHR ''$'' \<notin> set (G @ F)"
  proof
    assume "CHR ''$'' \<in> set (G @ F)"
    with setG setF have "CHR ''$'' \<in> set s" by auto
    with num show False by (auto simp: dollar_not_digit)
  qed
  have prefix_iff: "(take 1 (formatForDisplay cfg s) = ''$'') = showCurrencySymbol cfg"
  proof (cases "showCurrencySymbol cfg")
    case True
    then show ?thesis by (simp add: shape currency_prefix_def)
  next
    case False
    have "take 1 (G @ F) \<noteq> ''$''"
    proof
      assume "take 1 (G @ F) = ''$''"
      then have "CHR ''$'' \<in> set (take 1 (G @ F))" by simp
      then have "CHR ''$'' \<in> set (G @ F)" by (rule in_set_takeD)
      with no_dollar show False ..
    qed
    with False show ?thesis by (simp add: shape currency_prefix_def)
  qed
  have no_dot: "CHR ''.'' \<notin> set (currency_prefix cfg @ G)"
  proof -
    have "CHR ''.'' \<notin> set (integer_portion s)" by (rule integer_portion_no_dot)
    with set_group_from_right[of "integer_portion s"] have "CHR ''.'' \<notin> set G"
      unfolding G_def by auto
    then show ?thesis by (simp add: currency_prefix_def)
  qed
  have frF: "fractional_portion (formatForDisplay cfg s) = F"
  proof (cases "F = []")
    case True
    with no_dot show ?thesis
      by (simp add: shape fractional_portion_Nil)
  next
    case False
    then have sc: "showCents cfg" and ne: "fractional_portion s \<noteq> []"
      by (auto simp: F_def split: if_splits)
    from ne have dot: "CHR ''.'' \<in> set s"
      by (simp add: fractional_portion_Nil)
    have "F = CHR ''.'' # take 2 (first_fraction s)"
      unfolding F_def using sc dot canonical_take3_fraction[OF assms(1)] by simp
    then have "currency_prefix cfg @ G @ F =
        (currency_prefix cfg @ G) @ CHR ''.'' # take 2 (first_fraction s)"
      and Fv: "F = CHR ''.'' # take 2 (first_fraction s)"
      by simp_all
    then show ?thesis
      unfolding shape using fractional_portion_append_dot[OF no_dot] by simp
  qed
  have no_comma: "CHR '','' \<notin> set (fractional_portion (formatForDisplay cfg s))"
  proof
    assume "CHR '','' \<in> set (fractional_portion (formatForDisplay cfg s))"
    with frF setF have "CHR '','' \<in> set s" by auto
    with num show False by (auto simp: comma_not_digit)
  qed
  have scenario: "handleChange default_config ''1000000'' st =
           (st\<lparr>displayValue := ''$1,000,000''\<rparr>, Some (Finite 1000000))"
    by (simp add: string_eval number_eval config_eval)
  from shape prefix_iff no_comma scenario show ?thesis
    by (simp add: G_def F_def currency_prefix_def)
qed

text \<open>
  Claim C8, amended, at a concrete input: \<open>1234567.5\<close> with cents shown.
\<close>

theorem manual_formatter_shape_witness:
  "canonical ''1234567.5'' \<and> ''1234567.5'' \<noteq> [] \<and>
   formatForDisplay (default_config\<lparr>showCents := True\<rparr>) ''1234567.5'' = ''$1,234,567.5''"
proof -
  have h1: "canonical ''1234567.5''"
    by (simp add: canonical_def is_digit_def)
  have h2: "''1234567.5'' \<noteq> []"
    by simp
  from manual_formatter_shape[OF h1 h2, of "default_config\<lparr>showCents := True\<rparr>"]
  have "formatForDisplay (default_config\<lparr>showCents := True\<rparr>) ''1234567.5'' =
          (if showCurrencySymbol (default_config\<lparr>showCents := True\<rparr>) then ''$'' else []) @
          group_from_right (integer_portion ''1234567.5'') @
          (if showCents (default_config\<lparr>showCents := True\<rparr>)
           then take 3 (fractional_portion ''1234567.5'') else [])"
    by blast
  also have "\<dots> = ''$1,234,567.5''"
    by (simp add: config_eval group_from_right_def integer_portion_def fractional_portion_def)
  finally show ?thesis
    using h1 h2 by blast
qed

text \<open>
  Claim C9 (formatting round trip), as stated, fails where the rounding of \<open>parseFloat\<close>
  meets the dropped digits. With cents shown, the text \<open>4503599627370496.501\<close> is a
  canonical string of \<open>handleChange\<close>; it parses to \<open>4503599627370497\<close>. Its display
  \<open>$4,503,599,627,370,496.50\<close> strips to \<open>4503599627370496.50\<close>, which lies half way
  between two doubles and parses to the even one, \<open>4503599627370496\<close>. The two numbers
  differ by \<open>1\<close>, not only beyond the second fractional digit.
\<close>

theorem formatting_round_trip_counterexample:
  "cleanValue_of (default_config\<lparr>showCents := True\<rparr>) ''4503599627370496.501''
     = ''4503599627370496.501'' \<and>
   strip_non_numeric
     (formatForDisplay (default_config\<lparr>showCents := True\<rparr>) ''4503599627370496.501'')
     = ''4503599627370496.50'' \<and>
   parseFloat ''4503599627370496.501'' = Finite 4503599627370497 \<and>
   parseFloat ''4503599627370496.50'' = Finite 4503599627370496"
proof -
  have a: "cleanValue_of (default_config\<lparr>showCents := True\<rparr>) ''4503599627370496.501''
     = ''4503599627370496.501''"
    by (simp add: string_eval config_eval)
  have b: "strip_non_numeric
     (formatForDisplay (default_config\<lparr>showCents := True\<rparr>) ''4503599627370496.501'')
     = ''4503599627370496.50''"
    by (simp add: string_eval config_eval)
  have c: "parseFloat ''4503599627370496.501'' = Finite 4503599627370497"
    by (simp add: number_eval is_digit_def)
  have d: "parseFloat ''4503599627370496.50'' = Finite 4503599627370496"
    by (simp add: number_eval is_digit_def)
  from a b c d show ?thesis by blast
qed

text \<open>
  Claim C9, amended. Let \<open>s\<close> be a canonical string that \<open>handleChange\<close> passes to the manual
  formatter, and \<open>t\<close> the formatter's output with the currency symbol and the commas
  stripped. The decimal value written by \<open>t\<close> is the decimal value written by \<open>s\<close> cut to
  the configured number of fractional digits (two with cents, none without), and \<open>t\<close>
  parses exactly when \<open>s\<close> does. Parsing \<open>t\<close> gives the double nearest to that cut
  decimal; it gives the same number as parsing \<open>s\<close> when \<open>s\<close> has no more fractional
  digits than configured, which is always so without cents.
\<close>

theorem formatting_round_trip:
  assumes "s = cleanValue_of cfg raw"
    and "t = strip_non_numeric (formatForDisplay cfg s)"
  shows "map_option decimal_value (decimal_literal t) =
           map_option (truncate_to (fraction_digits cfg)) (map_option decimal_value (decimal_literal s)) \<and>
         parseFloat t =
           (case decimal_literal s of
              None \<Rightarrow> NaN
            | Some l \<Rightarrow> double_of_decimal (cut_fraction (fraction_digits cfg) l)) \<and>
         (length (first_fraction s) \<le> fraction_digits cfg \<longrightarrow> parseFloat t = parseFloat s) \<and>
         (\<not> showCents cfg \<longrightarrow> parseFloat t = parseFloat s)"
proof -
  have can: "canonical s" and side: "showCents cfg \<or> take 1 s \<noteq> ''.''"
    using cleanValue_of_canonical[of cfg raw] by (simp_all add: assms(1))
  have lit: "decimal_literal t = map_option (cut_fraction (fraction_digits cfg)) (decimal_literal s)"
    unfolding assms(2) using can side by (rule round_trip_canonical)
  have 1: "map_option decimal_value (decimal_literal t) =
      map_option (truncate_to (fraction_digits cfg)) (map_option decimal_value (decimal_literal s))"
    unfolding lit by (cases "decimal_literal s") (simp_all add: decimal_value_cut_fraction)
  have 2: "parseFloat t =
      (case decimal_literal s of
         None \<Rightarrow> NaN
       | Some l \<Rightarrow> double_of_decimal (cut_fraction (fraction_digits cfg) l))"
  proof (cases "decimal_literal s")
    case None
    with lit have "decimal_literal t = None" by simp
    with None show ?thesis by (simp add: parseFloat_def)
  next
    case (Some l)
    with lit have "decimal_literal t = Some (cut_fraction (fraction_digits cfg) l)" by simp
    with Some show ?thesis by (simp add: parseFloat_def)
  qed
  have 3: "parseFloat t = parseFloat s" if "length (first_fraction s) \<le> fraction_digits cfg"
  proof (cases "decimal_literal s")
    case None
    with 2 have "parseFloat t = NaN" by simp
    moreover from None have "parseFloat s = NaN" by (simp add: parseFloat_def)
    ultimately show ?thesis by simp
  next
    case (Some l)
    from literal_fraction_length[OF can Some] that have "snd l \<le> fraction_digits cfg"
      by simp
    then have "cut_fraction (fraction_digits cfg) l = l"
      by (rule cut_fraction_id)
    with 2 Some have "parseFloat t = double_of_decimal l" by simp
    moreover from Some have "parseFloat s = double_of_decimal l" by (simp add: parseFloat_def)
    ultimately show ?thesis by simp
  qed
  have 4: "parseFloat t = parseFloat s" if "\<not> showCents cfg"
  proof -
    have "CHR ''.'' \<notin> set s"
      unfolding assms(1) using that integer_portion_no_dot[of "strip_non_numeric raw"]
      by (simp add: cleanValue_of_eq Let_def)
    then have "fractional_portion s = []"
      by (simp add: fractional_portion_Nil)
    then have "first_fraction s = []"
      by (simp add: first_fraction_def integer_portion_def)
    then show ?thesis
      using 3 by simp
  qed
  from 1 2 3 4 show ?thesis by blast
qed

text \<open>
  Claim C9, amended, at concrete inputs, both with cents shown: \<open>12.5\<close> is displayed as
  \<open>$12.5\<close> and parses to \<open>12.5\<close> before and after; \<open>12.999\<close> is displayed as \<open>$12.99\<close>,
  which parses to the double of \<open>12.99\<close>.
\<close>

theorem formatting_round_trip_witness:
  "''12.5'' = cleanValue_of (default_config\<lparr>showCents := True\<rparr>) ''12.5'' \<and>
   ''12.5'' = strip_non_numeric (formatForDisplay (default_config\<lparr>showCents := True\<rparr>) ''12.5'') \<and>
   length (first_fraction ''12.5'') \<le> fraction_digits (default_config\<lparr>showCents := True\<rparr>) \<and>
   parseFloat ''12.5'' = Finite (25 / 2) \<and>
   ''12.999'' = cleanValue_of (default_config\<lparr>showCents := True\<rparr>) ''12.999'' \<and>
   ''12.99'' = strip_non_numeric (formatForDisplay (default_config\<lparr>showCents := True\<rparr>) ''12.999'') \<and>
   parseFloat ''12.99'' = Finite (7312719894942843 / 2 ^ 49)"
proof -
  have a1: "''12.5'' = cleanValue_of (default_config\<lparr>showCents := True\<rparr>) ''12.5''"
    by (simp add: string_eval config_eval)
  have a2: "''12.5'' = strip_non_numeric (formatForDisplay (default_config\<lparr>showCents := True\<rparr>) ''12.5'')"
    by (simp add: string_eval config_eval)
  have a3: "length (first_fraction ''12.5'') \<le> fraction_digits (default_config\<lparr>showCents := True\<rparr>)"
    by (simp add: first_fraction_def integer_portion_def fractional_portion_def fraction_digits_def
        config_eval)
  have l1: "decimal_literal ''12.5'' = Some (125, Suc 0)"
    by (simp add: decimal_literal_def digits_value_def digit_value_def is_digit_def)
  have d1: "double_of_decimal
      (cut_fraction (fraction_digits (default_config\<lparr>showCents := True\<rparr>)) (125, Suc 0))
      = Finite (25 / 2)"
    by (simp add: cut_fraction_def fraction_digits_def config_eval double_eval)
  from formatting_round_trip[OF a1 a2]
  have r1: "parseFloat ''12.5'' = Finite (25 / 2)"
    by (simp add: l1 d1)
  have b1: "''12.999'' = cleanValue_of (default_config\<lparr>showCents := True\<rparr>) ''12.999''"
    by (simp add: string_eval config_eval)
  have b2: "''12.99'' = strip_non_numeric (formatForDisplay (default_config\<lparr>showCents := True\<rparr>) ''12.999'')"
    by (simp add: string_eval config_eval)
  have l2: "decimal_literal ''12.999'' = Some (12999, 3)"
    by (simp add: decimal_literal_def digits_value_def digit_value_def is_digit_def)
  have d2: "double_of_decimal
      (cut_fraction (fraction_digits (default_config\<lparr>showCents := True\<rparr>)) (12999, 3))
      = Finite (7312719894942843 / 2 ^ 49)"
    by (simp add: cut_fraction_def fraction_digits_def config_eval double_eval)
  from formatting_round_trip[OF b1 b2]
  have r2: "parseFloat ''12.99'' = Finite (7312719894942843 / 2 ^ 49)"
    by (simp add: l2 d2)
  from a1 a2 a3 r1 b1 b2 r2 show ?thesis by blast
qed



end
